theory Spec2Isabelle
  imports Main
begin

section \<open>The event emitter of musicbot/lib/event\_emitter.py\<close>

text \<open>
  The module holds one class, \<open>EventEmitter\<close>, with the methods \<open>emit\<close>, \<open>on\<close>,
  \<open>off\<close> and \<open>once\<close>. The emitter mutates itself, so every method is a function from
  the state before the call to the state after it; an exception that leaves a method is
  a value returned beside the state, because Python keeps the mutations made before the
  raise.
\<close>

subsection \<open>Values, exceptions, callbacks\<close>

datatype pyval = PNone | PInt int | PStr string

text \<open>The \<open>*args\<close> and \<open>**kwargs\<close> that \<open>emit\<close> passes through.\<close>

type_synonym args = "pyval list \<times> (string \<times> pyval) list"

text \<open>
  \<open>ValueError\<close> is what \<open>list.remove\<close> raises; \<open>AttributeError\<close> what reading
  \<open>cb.__name__\<close> raises on a callable that has no such attribute;
  \<open>RuntimeError\<close> what \<open>loop.create_task\<close> raises on a closed loop and \<open>TypeError\<close>
  what it raises when its argument is no coroutine. \<open>UserError\<close> stands for any other
  instance of \<open>Exception\<close> a callback raises, \<open>SystemExiting\<close> for an exception that
  derives from \<open>BaseException\<close> only (\<open>KeyboardInterrupt\<close>, \<open>SystemExit\<close>), which
  \<open>except Exception\<close> does not catch.
\<close>

datatype exc = ValueError | TypeError | AttributeError | RuntimeError
  | UserError nat | SystemExiting nat

fun is_Exception :: "exc \<Rightarrow> bool" where
  "is_Exception (SystemExiting _) = False"
| "is_Exception _ = True"

text \<open>
  A callback is a function object; \<open>list.remove\<close> compares function objects by
  identity. \<open>SyncFn n\<close> is the \<open>n\<close>-th ordinary function of the caller, \<open>AsyncFn n\<close>
  the \<open>n\<close>-th coroutine function (\<open>async def\<close>). \<open>CallbackOff i event callback\<close> is
  the closure \<open>callback_off\<close> that \<open>once\<close> creates: \<open>i\<close> is the identity of the
  closure object, \<open>event\<close> and \<open>callback\<close> are the variables it captures.
\<close>

datatype callback = SyncFn nat | AsyncFn nat | CallbackOff nat string callback

type_synonym EventList = "callback list"
type_synonym EventDict = "string \<rightharpoonup> EventList"

text \<open>\<open>asyncio.iscoroutinefunction\<close>: \<open>callback_off\<close> is declared with a plain \<open>def\<close>.\<close>

fun iscoroutinefunction :: "callback \<Rightarrow> bool" where
  "iscoroutinefunction (AsyncFn _) = True"
| "iscoroutinefunction _ = False"

text \<open>
  What a call returns: a plain value, or the coroutine object that calling the \<open>n\<close>-th
  coroutine function with some arguments creates (its body has not started).
\<close>

datatype retval = Val pyval | Coroutine nat args

datatype outcome = Returned retval | Raised exc

text \<open>
  The code of the callbacks is not part of the module. It is a parameter: the body of
  the \<open>n\<close>-th ordinary function may change the registry in any way (it can reach the
  emitter) and returns or raises; calling the \<open>n\<close>-th coroutine function either creates
  the coroutine object or raises (its arguments do not fit); the body of the coroutine
  runs later, under the event loop. \<open>dunder_name cb\<close> is \<open>cb.__name__\<close>, \<open>None\<close> when the
  callable has no such attribute (a \<open>functools.partial\<close> of a coroutine function). A
  callback that calls \<open>emit\<close> again is outside this model.
\<close>

record env =
  sync_body :: "nat \<Rightarrow> args \<Rightarrow> EventDict \<Rightarrow> outcome \<times> EventDict"
  coro_call :: "nat \<Rightarrow> args \<Rightarrow> exc option"
  async_body :: "nat \<Rightarrow> args \<Rightarrow> EventDict \<Rightarrow> outcome \<times> EventDict"
  dunder_name :: "callback \<Rightarrow> string option"

subsection \<open>The state\<close>

text \<open>A task of the event loop: its identity, its name, and the coroutine it wraps.\<close>

datatype task = Task nat string nat args

text \<open>The one completion hook the module registers: \<open>self._task_pool.discard\<close>.\<close>

datatype hook = PoolDiscard

text \<open>
  What is observed of a run: \<open>EmitCall cb a\<close> when \<open>emit\<close> evaluates \<open>cb(*args)\<close>
  (lines 40 and 46), \<open>WrapperCall cb a\<close> when \<open>callback_off\<close> evaluates
  \<open>callback(*args)\<close> (line 77), \<open>BodyRun cb a\<close> when the body of a function of the
  caller runs.
\<close>

datatype event = EmitCall callback args | WrapperCall callback args | BodyRun callback args

text \<open>
  \<open>events\<close> and \<open>task_pool\<close> are the emitter's \<open>_events\<close> and \<open>_task_pool\<close>.
  \<open>pending\<close>, \<open>done_hooks\<close> and \<open>finished\<close> are the event loop (\<open>self.loop\<close>): the
  tasks created and not yet complete, the completion hooks of each task, and the result
  each complete task holds, and \<open>loop_closed\<close> whether the loop has been closed.
  \<open>type_name\<close> is \<open>type(self).__name__\<close>. \<open>printed\<close> is what \<open>traceback.print_exc\<close>
  has written, \<open>fresh\<close> the next unused object identity, \<open>trace\<close> the observation of
  the run.
\<close>

record state =
  events :: EventDict
  task_pool :: "task set"
  type_name :: string
  loop_closed :: bool
  pending :: "task list"
  done_hooks :: "task \<Rightarrow> hook list"
  finished :: "(task \<times> outcome) list"
  printed :: "exc list"
  fresh :: nat
  trace :: "event list"

text \<open>\<open>EventEmitter.__init__\<close>, lines 17 to 24.\<close>

definition init :: state where
  "init = \<lparr>events = Map.empty, task_pool = {}, type_name = ''EventEmitter'',
     loop_closed = False, pending = [], done_hooks = (\<lambda>_. []),
     finished = [], printed = [], fresh = 0, trace = []\<rparr>"

subsection \<open>The dictionary and the list\<close>

text \<open>
  \<open>_events\<close> is a \<open>collections.defaultdict(list)\<close>: reading a missing key with
  \<open>self._events[event]\<close> stores an empty list under the key and returns it.
\<close>

definition getitem :: "EventDict \<Rightarrow> string \<Rightarrow> EventList \<times> EventDict" where
  "getitem d k = (case d k of Some l \<Rightarrow> (l, d) | None \<Rightarrow> ([], d(k \<mapsto> [])))"

text \<open>\<open>list.remove\<close>: drops the first element equal to \<open>x\<close>; \<open>None\<close> is the \<open>ValueError\<close>.\<close>

fun list_remove :: "'a \<Rightarrow> 'a list \<Rightarrow> 'a list option" where
  "list_remove x [] = None"
| "list_remove x (y # ys) =
     (if y = x then Some ys else map_option (Cons y) (list_remove x ys))"

subsection \<open>on, off, once\<close>

text \<open>
  The three methods return \<open>self\<close>: the state returned is the emitter after the call.
  \<open>off\<close> may raise; the first component is the exception, \<open>None\<close> when it returns.
\<close>

definition on :: "string \<Rightarrow> callback \<Rightarrow> state \<Rightarrow> state" where
  "on event callback s =
     (case getitem (events s) event of
        (l, d) \<Rightarrow> s\<lparr>events := d(event \<mapsto> l @ [callback])\<rparr>)"

definition off :: "string \<Rightarrow> callback \<Rightarrow> state \<Rightarrow> exc option \<times> state" where
  "off event callback s =
     (case getitem (events s) event of
        (l, d) \<Rightarrow>
          (case list_remove callback l of
             None \<Rightarrow> (Some ValueError, s\<lparr>events := d\<rparr>)
           | Some l' \<Rightarrow>
               (None, s\<lparr>events := (if l' = [] then d(event := None)
                                      else d(event \<mapsto> l'))\<rparr>)))"

definition once :: "string \<Rightarrow> callback \<Rightarrow> state \<Rightarrow> state" where
  "once event callback s =
     on event (CallbackOff (fresh s) event callback) (s\<lparr>fresh := Suc (fresh s)\<rparr>)"

subsection \<open>Calling a callback\<close>

text \<open>
  \<open>cb(*args, **kwargs)\<close>. An ordinary function runs its body. A coroutine function
  only creates the coroutine object. \<open>callback_off\<close> (lines 75 to 77) calls \<open>off\<close> on
  itself, and, when that returns, calls the callback it wraps and returns its result; an
  exception of \<open>off\<close> leaves \<open>callback_off\<close> before the callback is called.
\<close>

fun call :: "env \<Rightarrow> callback \<Rightarrow> args \<Rightarrow> state \<Rightarrow> outcome \<times> state" where
  "call env (SyncFn n) a s =
     (case sync_body env n a (events s) of
        (out, d) \<Rightarrow> (out, s\<lparr>events := d, trace := trace s @ [BodyRun (SyncFn n) a]\<rparr>))"
| "call env (AsyncFn n) a s =
     (case coro_call env n a of
        Some e \<Rightarrow> (Raised e, s)
      | None \<Rightarrow> (Returned (Coroutine n a), s))"
| "call env (CallbackOff i event callback) a s =
     (case off event (CallbackOff i event callback) s of
        (Some e, s') \<Rightarrow> (Raised e, s')
      | (None, s') \<Rightarrow> call env callback a (s'\<lparr>trace := trace s' @ [WrapperCall callback a]\<rparr>))"

subsection \<open>emit\<close>

text \<open>
  \<open>loop.create_task(coro, name=...)\<close>: on a closed loop a \<open>RuntimeError\<close>; anything but a
  coroutine is a \<open>TypeError\<close>; otherwise a new task for the coroutine, known to the loop
  until it completes.
\<close>

definition create_task :: "retval \<Rightarrow> string \<Rightarrow> state \<Rightarrow> (exc + task) \<times> state" where
  "create_task v name s =
     (if loop_closed s then (Inl RuntimeError, s)
      else (case v of
        Coroutine n a \<Rightarrow>
          (Inr (Task (fresh s) name n a),
           s\<lparr>fresh := Suc (fresh s), pending := pending s @ [Task (fresh s) name n a]\<rparr>)
      | Val _ \<Rightarrow> (Inl TypeError, s)))"

definition add_done_callback :: "task \<Rightarrow> hook \<Rightarrow> state \<Rightarrow> state" where
  "add_done_callback t h s = s\<lparr>done_hooks := (done_hooks s)(t := done_hooks s t @ [h])\<rparr>"

text \<open>The name of line 41: \<open>f"MB_EE_{type(self).__name__}_{cb.__name__}"\<close>.\<close>

definition task_name :: "env \<Rightarrow> state \<Rightarrow> callback \<Rightarrow> string option" where
  "task_name env s cb =
     (case dunder_name env cb of
        None \<Rightarrow> None
      | Some n \<Rightarrow> Some (''MB_EE_'' @ type_name s @ ''_'' @ n))"

text \<open>
  Lines 39 to 44 once \<open>cb(*args, **kwargs)\<close> has returned \<open>v\<close>: the name is computed,
  \<open>create_task\<close> runs, the task is added to the pool and gets its completion hook.
\<close>

definition schedule :: "env \<Rightarrow> callback \<Rightarrow> retval \<Rightarrow> state \<Rightarrow> exc option \<times> state" where
  "schedule env cb v s =
     (case task_name env s cb of
        None \<Rightarrow> (Some AttributeError, s)
      | Some name \<Rightarrow>
          (case create_task v name s of
             (Inl e, s') \<Rightarrow> (Some e, s')
           | (Inr t, s') \<Rightarrow>
               (None, add_done_callback t PoolDiscard
                        (s'\<lparr>task_pool := insert t (task_pool s')\<rparr>))))"

text \<open>
  The body of the \<open>try\<close>, lines 36 to 46; the first component is the exception raised.
  In the first branch the arguments of \<open>create_task\<close> are evaluated in order: the call
  \<open>cb(*args, **kwargs)\<close> first, then the name.
\<close>

definition attempt :: "env \<Rightarrow> callback \<Rightarrow> args \<Rightarrow> state \<Rightarrow> exc option \<times> state" where
  "attempt env cb a s =
     (if iscoroutinefunction cb then
        (case call env cb a (s\<lparr>trace := trace s @ [EmitCall cb a]\<rparr>) of
           (Raised e, s1) \<Rightarrow> (Some e, s1)
         | (Returned v, s1) \<Rightarrow> schedule env cb v s1)
      else
        (case call env cb a (s\<lparr>trace := trace s @ [EmitCall cb a]\<rparr>) of
           (Raised e, s1) \<Rightarrow> (Some e, s1)
         | (Returned v, s1) \<Rightarrow> (None, s1)))"

text \<open>
  One turn of the loop, lines 35 to 49: \<open>except Exception\<close> prints the trace and goes
  on; any other exception leaves \<open>emit\<close>.
\<close>

definition dispatch :: "env \<Rightarrow> callback \<Rightarrow> args \<Rightarrow> state \<Rightarrow> exc option \<times> state" where
  "dispatch env cb a s =
     (case attempt env cb a s of
        (None, s') \<Rightarrow> (None, s')
      | (Some e, s') \<Rightarrow>
          (if is_Exception e then (None, s'\<lparr>printed := printed s' @ [e]\<rparr>)
           else (Some e, s')))"

text \<open>The \<open>for\<close> loop over the copy of the list.\<close>

fun emit_loop :: "env \<Rightarrow> EventList \<Rightarrow> args \<Rightarrow> state \<Rightarrow> exc option \<times> state" where
  "emit_loop env [] a s = (None, s)"
| "emit_loop env (cb # cbs) a s =
     (case dispatch env cb a s of
        (Some e, s') \<Rightarrow> (Some e, s')
      | (None, s') \<Rightarrow> emit_loop env cbs a s')"

text \<open>
  \<open>emit\<close>, lines 26 to 49. \<open>event not in self._events\<close> does not create the key, and
  \<open>list(self._events[event])\<close> reads a key that is there.
\<close>

definition emit :: "env \<Rightarrow> string \<Rightarrow> args \<Rightarrow> state \<Rightarrow> exc option \<times> state" where
  "emit env event a s =
     (case events s event of
        None \<Rightarrow> (None, s)
      | Some l \<Rightarrow> emit_loop env l a s)"

subsection \<open>The event loop completes a task\<close>



subsection \<open>Reading the observation\<close>

text \<open>The calls \<open>emit\<close> made, in order: the callback and the arguments of each.\<close>

fun emit_calls :: "event list \<Rightarrow> (callback \<times> args) list" where
  "emit_calls [] = []"
| "emit_calls (EmitCall cb a # tr) = (cb, a) # emit_calls tr"
| "emit_calls (_ # tr) = emit_calls tr"

text \<open>What was observed between the state \<open>s\<close> and the later state \<open>s'\<close>.\<close>

definition new_trace :: "state \<Rightarrow> state \<Rightarrow> event list" where
  "new_trace s s' = drop (length (trace s)) (trace s')"

subsection \<open>Reading the registry and counting calls\<close>

text \<open>The list of an event, empty when the event is no key.\<close>

definition registered :: "EventDict \<Rightarrow> string \<Rightarrow> EventList" where
  "registered d event = (case d event of None \<Rightarrow> [] | Some l \<Rightarrow> l)"




subsection \<open>Callbacks that raise no system-exiting exception\<close>


subsection \<open>Sequences of operations\<close>






subsection \<open>Callbacks for the examples\<close>

text \<open>
  Ordinary function 0 calls \<open>off("e", itself)\<close> on the emitter, function 1 raises an
  \<open>Exception\<close>, function 2 raises \<open>SystemExit\<close>, function 5 calls \<open>on("e", itself)\<close>, the
  others return \<open>None\<close>. The body of coroutine function 0 raises an \<open>Exception\<close>, the
  others return. Every callable is named \<open>cb\<close>.
\<close>

definition demo :: env where
  "demo = \<lparr>
     sync_body = (\<lambda>n a d.
       if n = 0 then
         (Returned (Val PNone), events (snd (off ''e'' (SyncFn 0) (init\<lparr>events := d\<rparr>))))
       else if n = 1 then (Raised (UserError 1), d)
       else if n = 2 then (Raised (SystemExiting 2), d)
       else if n = 5 then
         (Returned (Val PNone), events (on ''e'' (SyncFn 5) (init\<lparr>events := d\<rparr>)))
       else (Returned (Val PNone), d)),
     coro_call = (\<lambda>n a. None),
     async_body = (\<lambda>n a d.
       if n = 0 then (Raised (UserError 7), d) else (Returned (Val PNone), d)),
     dunder_name = (\<lambda>cb. Some ''cb'')\<rparr>"

text \<open>The same callbacks, but function 2 returns \<open>None\<close>: no callback raises \<open>SystemExit\<close>.\<close>

definition polite :: env where
  "polite = demo\<lparr>sync_body := (\<lambda>n a d.
     if n = 2 then (Returned (Val PNone), d) else sync_body demo n a d)\<rparr>"

section \<open>Properties\<close>

subsection \<open>list.remove\<close>

lemma list_remove_None: "list_remove x l = None \<longleftrightarrow> x \<notin> set l"
  by (induction l) auto

lemma list_remove_split:
  "x \<in> set l \<Longrightarrow>
     \<exists>ys zs. l = ys @ x # zs \<and> x \<notin> set ys \<and> list_remove x l = Some (ys @ zs)"
proof (induction l)
  case Nil
  then show ?case by simp
next
  case (Cons y l)
  show ?case
  proof (cases "y = x")
    case True
    then have "y # l = [] @ x # l \<and> x \<notin> set [] \<and> list_remove x (y # l) = Some ([] @ l)"
      by simp
    then show ?thesis by blast
  next
    case False
    with Cons.prems have "x \<in> set l" by simp
    from Cons.IH [OF this] obtain ys zs
      where "l = ys @ x # zs" "x \<notin> set ys" "list_remove x l = Some (ys @ zs)" by blast
    with False have "y # l = (y # ys) @ x # zs \<and> x \<notin> set (y # ys)
        \<and> list_remove x (y # l) = Some ((y # ys) @ zs)"
      by simp
    then show ?thesis by blast
  qed
qed

subsection \<open>off\<close>

text \<open>
  C5. \<open>off(E, cb)\<close> raises exactly when \<open>E\<close> is not a key of the registry or \<open>cb\<close> is
  not in the list of \<open>E\<close>. The exception is the \<open>ValueError\<close> of \<open>list.remove\<close>; \<open>off\<close>
  has no handler, so the exception is the outcome of \<open>off\<close> that its caller receives.
\<close>

theorem off_raises_iff:
  "fst (off event cb s) =
     (if events s event = None \<or> (\<exists>l. events s event = Some l \<and> cb \<notin> set l)
      then Some ValueError else None)"
proof (cases "events s event")
  case None
  then show ?thesis by (simp add: off_def getitem_def)
next
  case (Some l)
  show ?thesis
  proof (cases "list_remove cb l")
    case None
    with Some show ?thesis
      using list_remove_None [of cb l] by (simp add: off_def getitem_def)
  next
    case (Some l')
    then have "cb \<in> set l" using list_remove_None [of cb l] by auto
    with Some \<open>events s event = Some l\<close> show ?thesis
      by (simp add: off_def getitem_def)
  qed
qed

text \<open>
  C6. When the list of \<open>E\<close> holds \<open>cb\<close>, \<open>off(E, cb)\<close> returns (the emitter itself, as
  the state after the call) and the list of \<open>E\<close> has lost the first occurrence of \<open>cb\<close>:
  the elements before it (none of them \<open>cb\<close>) and all the elements after it stay, in
  their order. The key \<open>E\<close> is deleted exactly when nothing is left, and nothing else
  of the emitter changes.
\<close>

theorem off_removes_first:
  assumes "events s event = Some l" and "cb \<in> set l"
  shows "\<exists>ys zs. l = ys @ cb # zs \<and> cb \<notin> set ys \<and>
           off event cb s =
             (None, s\<lparr>events := (if ys @ zs = [] then (events s)(event := None)
                                   else (events s)(event \<mapsto> ys @ zs))\<rparr>)"
proof -
  from list_remove_split [OF assms(2)] obtain ys zs
    where l: "l = ys @ cb # zs" and n: "cb \<notin> set ys"
      and r: "list_remove cb l = Some (ys @ zs)"
    by blast
  have "off event cb s =
      (None, s\<lparr>events := (if ys @ zs = [] then (events s)(event := None)
                            else (events s)(event \<mapsto> ys @ zs))\<rparr>)"
    using assms(1) r by (simp add: off_def getitem_def)
  with l n show ?thesis by blast
qed

theorem off_removes_first_witness:
  "events (on ''e'' (SyncFn 1) (on ''e'' (SyncFn 0) (on ''e'' (SyncFn 1) init))) ''e''
     = Some [SyncFn 1, SyncFn 0, SyncFn 1]
   \<and> SyncFn 1 \<in> set [SyncFn 1, SyncFn 0, SyncFn 1]
   \<and> events (snd (off ''e'' (SyncFn 1)
        (on ''e'' (SyncFn 1) (on ''e'' (SyncFn 0) (on ''e'' (SyncFn 1) init))))) ''e''
     = Some [SyncFn 0, SyncFn 1]"
proof -
  let ?s = "on ''e'' (SyncFn 1) (on ''e'' (SyncFn 0) (on ''e'' (SyncFn 1) init))"
  have h1: "events ?s ''e'' = Some [SyncFn 1, SyncFn 0, SyncFn 1]"
    by (simp add: on_def getitem_def init_def)
  have h2: "SyncFn 1 \<in> set [SyncFn 1, SyncFn 0, SyncFn 1]" by simp
  from off_removes_first [OF h1 h2] obtain ys zs where
    l: "[SyncFn 1, SyncFn 0, SyncFn 1] = ys @ SyncFn 1 # zs" and n: "SyncFn 1 \<notin> set ys"
    and o: "off ''e'' (SyncFn 1) ?s =
             (None, ?s\<lparr>events := (if ys @ zs = [] then (events ?s)(''e'' := None)
                                   else (events ?s)(''e'' \<mapsto> ys @ zs))\<rparr>)"
    by blast
  from l n have "ys = []" by (cases ys) auto
  with l have "zs = [SyncFn 0, SyncFn 1]" by simp
  with \<open>ys = []\<close> o
  have "events (snd (off ''e'' (SyncFn 1) ?s)) ''e'' = Some [SyncFn 0, SyncFn 1]"
    by simp
  with h1 h2 show ?thesis by blast
qed

text \<open>
  C2. On a new emitter, \<open>off("x", f)\<close> raises, and leaves the key \<open>"x"\<close> in the
  registry with an empty list: \<open>self._events[event]\<close> of line 62 creates the entry of
  the \<open>defaultdict\<close> before \<open>remove\<close> raises, and line 65 is not reached.
\<close>

theorem off_unregistered_leaves_empty_list:
  "off ''x'' (SyncFn 0) init = (Some ValueError, init\<lparr>events := [''x'' \<mapsto> []]\<rparr>)"
  by (simp add: off_def getitem_def init_def)

subsection \<open>What a call and a turn of the loop change\<close>

lemma emit_calls_append: "emit_calls (xs @ ys) = emit_calls xs @ emit_calls ys"
  by (induction xs rule: emit_calls.induct) auto

lemma off_effect: "\<exists>d. snd (off event cb s) = s\<lparr>events := d\<rparr>"
  by (auto simp: off_def split: prod.splits option.splits)

lemma call_effect:
  "\<exists>d tr. snd (call env cb a s) = s\<lparr>events := d, trace := trace s @ tr\<rparr> \<and> emit_calls tr = []"
proof (induction cb arbitrary: s)
  case (SyncFn n)
  obtain out d where b: "sync_body env n a (events s) = (out, d)" by (cases "sync_body env n a (events s)")
  then have "snd (call env (SyncFn n) a s) = s\<lparr>events := d, trace := trace s @ [BodyRun (SyncFn n) a]\<rparr>
      \<and> emit_calls [BodyRun (SyncFn n) a] = []"
    by simp
  then show ?case by blast
next
  case (AsyncFn n)
  have "snd (call env (AsyncFn n) a s) = s\<lparr>events := events s, trace := trace s @ []\<rparr> \<and> emit_calls [] = []"
    by (simp split: option.splits)
  then show ?case by blast
next
  case (CallbackOff i event cb)
  let ?W = "CallbackOff i event cb"
  obtain r s1 where o: "off event ?W s = (r, s1)" by (cases "off event ?W s")
  from off_effect [of event ?W s] o obtain d1 where s1: "s1 = s\<lparr>events := d1\<rparr>" by auto
  show ?case
  proof (cases r)
    case (Some e)
    with o s1 have "snd (call env ?W a s) = s\<lparr>events := d1, trace := trace s @ []\<rparr> \<and> emit_calls [] = []"
      by simp
    then show ?thesis by blast
  next
    case None
    let ?s2 = "s1\<lparr>trace := trace s1 @ [WrapperCall cb a]\<rparr>"
    from CallbackOff.IH [of ?s2] obtain d tr where
      c: "snd (call env cb a ?s2) = ?s2\<lparr>events := d, trace := trace ?s2 @ tr\<rparr>" and e: "emit_calls tr = []"
      by blast
    from None o have "snd (call env ?W a s) = snd (call env cb a ?s2)" by simp
    with c s1 have "snd (call env ?W a s) = s\<lparr>events := d, trace := trace s @ (WrapperCall cb a # tr)\<rparr>"
      by simp
    moreover from e have "emit_calls (WrapperCall cb a # tr) = []" by simp
    ultimately show ?thesis by blast
  qed
qed

lemma call_trace:
  "\<exists>tr. trace (snd (call env cb a s)) = trace s @ tr \<and> emit_calls tr = []"
proof -
  from call_effect [of env cb a s] obtain d tr where
    "snd (call env cb a s) = s\<lparr>events := d, trace := trace s @ tr\<rparr>" "emit_calls tr = []"
    by blast
  then have "trace (snd (call env cb a s)) = trace s @ tr \<and> emit_calls tr = []" by simp
  then show ?thesis by blast
qed


lemma schedule_fields:
  "trace (snd (schedule env cb v s)) = trace s \<and> printed (snd (schedule env cb v s)) = printed s
   \<and> events (snd (schedule env cb v s)) = events s
   \<and> finished (snd (schedule env cb v s)) = finished s"
proof (cases "task_name env s cb")
  case None
  then show ?thesis by (simp add: schedule_def)
next
  case (Some name)
  show ?thesis
  proof (cases "loop_closed s")
    case True
    with Some show ?thesis by (simp add: schedule_def create_task_def)
  next
    case False
    with Some show ?thesis
      by (cases v) (simp_all add: schedule_def create_task_def add_done_callback_def)
  qed
qed

lemma attempt_fields:
  assumes "call env cb a (s\<lparr>trace := trace s @ [EmitCall cb a]\<rparr>) = (out, s1)"
  shows "trace (snd (attempt env cb a s)) = trace s1"
    and "printed (snd (attempt env cb a s)) = printed s1"
    and "events (snd (attempt env cb a s)) = events s1"
    and "finished (snd (attempt env cb a s)) = finished s1"
proof -
  have "trace (snd (attempt env cb a s)) = trace s1 \<and> printed (snd (attempt env cb a s)) = printed s1
    \<and> events (snd (attempt env cb a s)) = events s1 \<and> finished (snd (attempt env cb a s)) = finished s1"
  proof (cases out)
    case (Raised x)
    with assms show ?thesis by (simp add: attempt_def)
  next
    case (Returned v)
    with assms show ?thesis
      using schedule_fields [of env cb v s1] by (simp add: attempt_def)
  qed
  then show "trace (snd (attempt env cb a s)) = trace s1"
    and "printed (snd (attempt env cb a s)) = printed s1"
    and "events (snd (attempt env cb a s)) = events s1"
    and "finished (snd (attempt env cb a s)) = finished s1"
    by simp_all
qed

lemma attempt_trace:
  "\<exists>tr. trace (snd (attempt env cb a s)) = trace s @ EmitCall cb a # tr \<and> emit_calls tr = []"
proof -
  let ?s0 = "s\<lparr>trace := trace s @ [EmitCall cb a]\<rparr>"
  obtain out s1 where c: "call env cb a ?s0 = (out, s1)" by (cases "call env cb a ?s0")
  from call_trace [of env cb a ?s0] obtain tr where
    "trace (snd (call env cb a ?s0)) = trace ?s0 @ tr" and e: "emit_calls tr = []"
    by blast
  with c have "trace s1 = trace s @ EmitCall cb a # tr" by simp
  with attempt_fields(1) [OF c] e show ?thesis by simp
qed

lemma dispatch_trace_eq: "trace (snd (dispatch env cb a s)) = trace (snd (attempt env cb a s))"
  by (cases "attempt env cb a s") (simp add: dispatch_def split: option.splits)

lemma dispatch_trace:
  "\<exists>tr. trace (snd (dispatch env cb a s)) = trace s @ EmitCall cb a # tr \<and> emit_calls tr = []"
  using attempt_trace [of env cb a s] by (simp add: dispatch_trace_eq)

lemma emit_loop_calls:
  "\<exists>tr k. trace (snd (emit_loop env cbs a s)) = trace s @ tr
      \<and> k \<le> length cbs
      \<and> emit_calls tr = map (\<lambda>cb. (cb, a)) (take k cbs)
      \<and> (fst (emit_loop env cbs a s) = None \<longrightarrow> k = length cbs)"
proof (induction cbs arbitrary: s)
  case Nil
  show ?case
    by (rule exI [of _ "[]"], rule exI [of _ 0]) simp
next
  case (Cons cb cbs)
  obtain r s1 where d: "dispatch env cb a s = (r, s1)" by (cases "dispatch env cb a s")
  from dispatch_trace [of env cb a s] obtain tr1 where
    t0: "trace (snd (dispatch env cb a s)) = trace s @ EmitCall cb a # tr1" and e1: "emit_calls tr1 = []"
    by blast
  from t0 d have t1: "trace s1 = trace s @ EmitCall cb a # tr1" by simp
  show ?case
  proof (cases r)
    case (Some e)
    with d have l: "emit_loop env (cb # cbs) a s = (Some e, s1)" by simp
    have c1: "trace (snd (emit_loop env (cb # cbs) a s)) = trace s @ (EmitCall cb a # tr1)"
      using l t1 by simp
    have c2: "Suc 0 \<le> length (cb # cbs)" by simp
    have c3: "emit_calls (EmitCall cb a # tr1) = map (\<lambda>cb. (cb, a)) (take (Suc 0) (cb # cbs))"
      using e1 by simp
    have c4: "fst (emit_loop env (cb # cbs) a s) = None \<longrightarrow> Suc 0 = length (cb # cbs)"
      using l by simp
    show ?thesis
      apply (rule exI [of _ "EmitCall cb a # tr1"])
      apply (rule exI [of _ "Suc 0"])
      apply (rule conjI [OF c1 conjI [OF c2 conjI [OF c3 c4]]])
      done
  next
    case None
    with d have l: "emit_loop env (cb # cbs) a s = emit_loop env cbs a s1" by simp
    from Cons.IH [of s1] obtain tr where "\<exists>k. trace (snd (emit_loop env cbs a s1)) = trace s1 @ tr
      \<and> k \<le> length cbs
      \<and> emit_calls tr = map (\<lambda>cb. (cb, a)) (take k cbs)
      \<and> (fst (emit_loop env cbs a s1) = None \<longrightarrow> k = length cbs)" ..
    then obtain k where ih: "trace (snd (emit_loop env cbs a s1)) = trace s1 @ tr
      \<and> k \<le> length cbs
      \<and> emit_calls tr = map (\<lambda>cb. (cb, a)) (take k cbs)
      \<and> (fst (emit_loop env cbs a s1) = None \<longrightarrow> k = length cbs)" ..
    have c1: "trace (snd (emit_loop env (cb # cbs) a s)) = trace s @ (EmitCall cb a # tr1 @ tr)"
      using l t1 ih by simp
    have c2: "Suc k \<le> length (cb # cbs)" using ih by simp
    have c3: "emit_calls (EmitCall cb a # tr1 @ tr) = map (\<lambda>cb. (cb, a)) (take (Suc k) (cb # cbs))"
      using e1 ih by (simp add: emit_calls_append)
    have c4: "fst (emit_loop env (cb # cbs) a s) = None \<longrightarrow> Suc k = length (cb # cbs)"
      using l ih by simp
    show ?thesis
      apply (rule exI [of _ "EmitCall cb a # tr1 @ tr"])
      apply (rule exI [of _ "Suc k"])
      apply (rule conjI [OF c1 conjI [OF c2 conjI [OF c3 c4]]])
      done
  qed
qed

lemma emit_loop_new_calls:
  "\<exists>k\<le>length cbs.
      emit_calls (new_trace s (snd (emit_loop env cbs a s))) = map (\<lambda>cb. (cb, a)) (take k cbs)
      \<and> (fst (emit_loop env cbs a s) = None \<longrightarrow> k = length cbs)"
proof -
  from emit_loop_calls [of env cbs a s] obtain tr where "\<exists>k. trace (snd (emit_loop env cbs a s)) = trace s @ tr
      \<and> k \<le> length cbs
      \<and> emit_calls tr = map (\<lambda>cb. (cb, a)) (take k cbs)
      \<and> (fst (emit_loop env cbs a s) = None \<longrightarrow> k = length cbs)" ..
  then obtain k where ih: "trace (snd (emit_loop env cbs a s)) = trace s @ tr
      \<and> k \<le> length cbs
      \<and> emit_calls tr = map (\<lambda>cb. (cb, a)) (take k cbs)
      \<and> (fst (emit_loop env cbs a s) = None \<longrightarrow> k = length cbs)" ..
  then have "k \<le> length cbs \<and>
      emit_calls (new_trace s (snd (emit_loop env cbs a s))) = map (\<lambda>cb. (cb, a)) (take k cbs)
      \<and> (fst (emit_loop env cbs a s) = None \<longrightarrow> k = length cbs)"
    by (simp add: new_trace_def)
  then show ?thesis ..
qed

lemma emit_loop_returns_calls:
  assumes "emit_loop env cbs a s = (None, s')"
  shows "emit_calls (new_trace s s') = map (\<lambda>cb. (cb, a)) cbs"
proof -
  from emit_loop_new_calls [of cbs s env a] obtain k where
    "k \<le> length cbs \<and>
      emit_calls (new_trace s (snd (emit_loop env cbs a s))) = map (\<lambda>cb. (cb, a)) (take k cbs)
      \<and> (fst (emit_loop env cbs a s) = None \<longrightarrow> k = length cbs)" ..
  with assms show ?thesis by simp
qed

lemmas run_defs = emit_def dispatch_def attempt_def schedule_def task_name_def
  create_task_def add_done_callback_def demo_def polite_def on_def off_def once_def getitem_def init_def new_trace_def














subsection \<open>emit\<close>





text \<open>
  C7. \<open>emit\<close> runs its loop over the list of \<open>E\<close> as it is when \<open>emit\<close> is called:
  when \<open>emit\<close> returns, it has called exactly the callbacks of that list, whatever the
  callbacks did to the registry in between (the bodies are arbitrary functions on the
  registry). What they did shows in the next \<open>emit\<close>, which calls the callbacks of the
  list they left.
\<close>

theorem emit_iterates_snapshot:
  assumes "events s event = Some cbs"
    and "emit env event a s = (None, s')"
    and "emit env event a2 s' = (None, s'')"
  shows "emit_calls (new_trace s s') = map (\<lambda>cb. (cb, a)) cbs \<and>
         emit_calls (new_trace s' s'') =
           map (\<lambda>cb. (cb, a2)) (case events s' event of None \<Rightarrow> [] | Some l \<Rightarrow> l)"
proof
  from assms(1,2) have "emit_loop env cbs a s = (None, s')" by (simp add: emit_def)
  then show "emit_calls (new_trace s s') = map (\<lambda>cb. (cb, a)) cbs"
    by (rule emit_loop_returns_calls)
next
  show "emit_calls (new_trace s' s'') =
           map (\<lambda>cb. (cb, a2)) (case events s' event of None \<Rightarrow> [] | Some l \<Rightarrow> l)"
  proof (cases "events s' event")
    case None
    with assms(3) have "s'' = s'" by (simp add: emit_def)
    with None show ?thesis by (simp add: new_trace_def)
  next
    case (Some l)
    with assms(3) have "emit_loop env l a2 s' = (None, s'')" by (simp add: emit_def)
    then have "emit_calls (new_trace s' s'') = map (\<lambda>cb. (cb, a2)) l"
      by (rule emit_loop_returns_calls)
    with Some show ?thesis by simp
  qed
qed

theorem emit_iterates_snapshot_witness:
  "events (on ''e'' (SyncFn 3) (on ''e'' (SyncFn 0) init)) ''e'' = Some [SyncFn 0, SyncFn 3]
   \<and> fst (emit demo ''e'' ([], []) (on ''e'' (SyncFn 3) (on ''e'' (SyncFn 0) init))) = None
   \<and> events (snd (emit demo ''e'' ([], []) (on ''e'' (SyncFn 3) (on ''e'' (SyncFn 0) init)))) ''e''
       = Some [SyncFn 3]
   \<and> emit_calls (new_trace (on ''e'' (SyncFn 3) (on ''e'' (SyncFn 0) init))
        (snd (emit demo ''e'' ([], []) (on ''e'' (SyncFn 3) (on ''e'' (SyncFn 0) init)))))
      = [(SyncFn 0, ([], [])), (SyncFn 3, ([], []))]
   \<and> emit_calls (new_trace
        (snd (emit demo ''e'' ([], []) (on ''e'' (SyncFn 3) (on ''e'' (SyncFn 0) init))))
        (snd (emit demo ''e'' ([PInt 1], [])
           (snd (emit demo ''e'' ([], []) (on ''e'' (SyncFn 3) (on ''e'' (SyncFn 0) init)))))))
      = [(SyncFn 3, ([PInt 1], []))]"
proof -
  let ?s = "on ''e'' (SyncFn 3) (on ''e'' (SyncFn 0) init)"
  let ?a = "([], []) :: args"
  let ?a2 = "([PInt 1], []) :: args"
  let ?s' = "snd (emit demo ''e'' ?a ?s)"
  let ?s'' = "snd (emit demo ''e'' ?a2 ?s')"
  have h1: "events ?s ''e'' = Some [SyncFn 0, SyncFn 3]"
    by (simp add: on_def getitem_def init_def)
  have f1: "fst (emit demo ''e'' ?a ?s) = None"
    by (simp add: run_defs)
  have e1: "events ?s' ''e'' = Some [SyncFn 3]"
    by (simp add: run_defs)
  have f2: "fst (emit demo ''e'' ?a2 ?s') = None"
    by (simp add: run_defs)
  from f1 have h2: "emit demo ''e'' ?a ?s = (None, ?s')" by (simp add: prod_eq_iff)
  from f2 have h3: "emit demo ''e'' ?a2 ?s' = (None, ?s'')" by (simp add: prod_eq_iff)
  from emit_iterates_snapshot [OF h1 h2 h3] e1
  have "emit_calls (new_trace ?s ?s') = [(SyncFn 0, ?a), (SyncFn 3, ?a)]
      \<and> emit_calls (new_trace ?s' ?s'') = [(SyncFn 3, ?a2)]"
    by simp
  with h1 f1 e1 show ?thesis by simp
qed

text \<open>
  C8, as the code has it. When the call of a callback raises \<open>e\<close> in a pass of \<open>emit\<close>:
  if \<open>e\<close> is an \<open>Exception\<close>, it is caught and printed, no exception leaves the turn, and
  the pass goes on with the callbacks that follow in the snapshot; if \<open>e\<close> is no
  \<open>Exception\<close> (\<open>SystemExit\<close>, \<open>KeyboardInterrupt\<close>), it leaves \<open>emit\<close>, nothing is
  printed and the callbacks that follow are not called.
\<close>

theorem dispatch_except_Exception:
  assumes "call env cb a (s\<lparr>trace := trace s @ [EmitCall cb a]\<rparr>) = (Raised e, s1)"
  shows "dispatch env cb a s =
           (if is_Exception e then (None, s1\<lparr>printed := printed s1 @ [e]\<rparr>) else (Some e, s1))
         \<and> emit_loop env (cb # rest) a s =
           (if is_Exception e then emit_loop env rest a (s1\<lparr>printed := printed s1 @ [e]\<rparr>)
            else (Some e, s1))"
proof -
  from assms have "attempt env cb a s = (Some e, s1)"
    by (simp add: attempt_def)
  then have d: "dispatch env cb a s =
      (if is_Exception e then (None, s1\<lparr>printed := printed s1 @ [e]\<rparr>) else (Some e, s1))"
    by (simp add: dispatch_def)
  then show ?thesis by simp
qed

theorem dispatch_except_Exception_witness:
  "call demo (SyncFn 1) ([], [])
       ((on ''e'' (SyncFn 3) (on ''e'' (SyncFn 1) init))
          \<lparr>trace := trace (on ''e'' (SyncFn 3) (on ''e'' (SyncFn 1) init))
                      @ [EmitCall (SyncFn 1) ([], [])]\<rparr>)
     = (Raised (UserError 1),
        (on ''e'' (SyncFn 3) (on ''e'' (SyncFn 1) init))
          \<lparr>trace := [EmitCall (SyncFn 1) ([], []), BodyRun (SyncFn 1) ([], [])]\<rparr>)
   \<and> fst (emit demo ''e'' ([], []) (on ''e'' (SyncFn 3) (on ''e'' (SyncFn 1) init))) = None
   \<and> printed (snd (emit demo ''e'' ([], []) (on ''e'' (SyncFn 3) (on ''e'' (SyncFn 1) init))))
       = [UserError 1]
   \<and> emit_calls (trace (snd (emit demo ''e'' ([], [])
        (on ''e'' (SyncFn 3) (on ''e'' (SyncFn 1) init)))))
       = [(SyncFn 1, ([], [])), (SyncFn 3, ([], []))]
   \<and> call demo (SyncFn 2) ([], [])
       ((on ''e'' (SyncFn 2) init)
          \<lparr>trace := trace (on ''e'' (SyncFn 2) init) @ [EmitCall (SyncFn 2) ([], [])]\<rparr>)
     = (Raised (SystemExiting 2),
        (on ''e'' (SyncFn 2) init)
          \<lparr>trace := [EmitCall (SyncFn 2) ([], []), BodyRun (SyncFn 2) ([], [])]\<rparr>)
   \<and> dispatch demo (SyncFn 2) ([], []) (on ''e'' (SyncFn 2) init)
     = (Some (SystemExiting 2),
        (on ''e'' (SyncFn 2) init)
          \<lparr>trace := [EmitCall (SyncFn 2) ([], []), BodyRun (SyncFn 2) ([], [])]\<rparr>)"
proof -
  let ?s = "on ''e'' (SyncFn 3) (on ''e'' (SyncFn 1) init)"
  let ?a = "([], []) :: args"
  let ?s1 = "?s\<lparr>trace := [EmitCall (SyncFn 1) ?a, BodyRun (SyncFn 1) ?a]\<rparr>"
  let ?u = "on ''e'' (SyncFn 2) init"
  let ?u1 = "?u\<lparr>trace := [EmitCall (SyncFn 2) ?a, BodyRun (SyncFn 2) ?a]\<rparr>"
  have h1: "call demo (SyncFn 1) ?a (?s\<lparr>trace := trace ?s @ [EmitCall (SyncFn 1) ?a]\<rparr>)
      = (Raised (UserError 1), ?s1)"
    by (simp add: run_defs)
  have h2: "call demo (SyncFn 2) ?a (?u\<lparr>trace := trace ?u @ [EmitCall (SyncFn 2) ?a]\<rparr>)
      = (Raised (SystemExiting 2), ?u1)"
    by (simp add: run_defs)
  have l: "emit demo ''e'' ?a ?s = emit_loop demo (SyncFn 1 # [SyncFn 3]) ?a ?s"
    by (simp add: emit_def on_def getitem_def init_def)
  from dispatch_except_Exception [OF h1, of "[SyncFn 3]"]
  have "emit_loop demo (SyncFn 1 # [SyncFn 3]) ?a ?s
      = emit_loop demo [SyncFn 3] ?a (?s1\<lparr>printed := printed ?s1 @ [UserError 1]\<rparr>)"
    by simp
  with l have "emit demo ''e'' ?a ?s
      = emit_loop demo [SyncFn 3] ?a (?s1\<lparr>printed := printed ?s1 @ [UserError 1]\<rparr>)"
    by simp
  then have c1: "fst (emit demo ''e'' ?a ?s) = None
      \<and> printed (snd (emit demo ''e'' ?a ?s)) = [UserError 1]
      \<and> emit_calls (trace (snd (emit demo ''e'' ?a ?s))) = [(SyncFn 1, ?a), (SyncFn 3, ?a)]"
    by (simp add: run_defs)
  from dispatch_except_Exception [OF h2, of "[]"]
  have c2: "dispatch demo (SyncFn 2) ?a ?u = (Some (SystemExiting 2), ?u1)"
    by simp
  from h1 h2 c1 c2 show ?thesis by simp
qed

text \<open>
  C8 as stated fails. Function 2 raises \<open>SystemExit\<close>: the exception leaves \<open>emit\<close>,
  nothing is printed, and function 3, registered after it, is not called.
\<close>

theorem emit_propagates_SystemExit:
  "fst (emit demo ''e'' ([], []) (on ''e'' (SyncFn 3) (on ''e'' (SyncFn 2) init)))
     = Some (SystemExiting 2)
   \<and> printed (snd (emit demo ''e'' ([], []) (on ''e'' (SyncFn 3) (on ''e'' (SyncFn 2) init))))
     = []
   \<and> emit_calls (trace (snd (emit demo ''e'' ([], [])
        (on ''e'' (SyncFn 3) (on ''e'' (SyncFn 2) init)))))
     = [(SyncFn 2, ([], []))]"
  by (simp add: run_defs)

subsection \<open>once\<close>

lemma once_eq:
  "once event cb s =
     s\<lparr>fresh := Suc (fresh s),
       events := (events s)(event \<mapsto> registered (events s) event @ [CallbackOff (fresh s) event cb])\<rparr>"
  by (simp add: once_def on_def getitem_def registered_def split: option.splits)





subsection \<open>Coroutine functions and tasks\<close>

lemma call_async_body: "call (env\<lparr>async_body := b\<rparr>) cb a s = call env cb a s"
  by (induction cb arbitrary: s) (simp_all split: prod.splits option.splits)

lemma schedule_async_body: "schedule (env\<lparr>async_body := b\<rparr>) cb v s = schedule env cb v s"
  by (simp add: schedule_def task_name_def)

lemma attempt_async_body: "attempt (env\<lparr>async_body := b\<rparr>) cb a s = attempt env cb a s"
  by (simp add: attempt_def call_async_body schedule_async_body
      split: prod.splits outcome.splits)

lemma dispatch_async_body: "dispatch (env\<lparr>async_body := b\<rparr>) cb a s = dispatch env cb a s"
  by (simp add: dispatch_def attempt_async_body)






lemma off_fst_events: "events s' = events s \<Longrightarrow> fst (off event cb s') = fst (off event cb s)"
  by (simp add: off_def split: prod.splits option.splits)

lemma wrapped_async_fields:
  "task_pool (snd (dispatch env (CallbackOff i event (AsyncFn n)) a s)) = task_pool s
   \<and> pending (snd (dispatch env (CallbackOff i event (AsyncFn n)) a s)) = pending s
   \<and> fresh (snd (dispatch env (CallbackOff i event (AsyncFn n)) a s)) = fresh s
   \<and> trace (snd (dispatch env (CallbackOff i event (AsyncFn n)) a s)) =
       trace s @ EmitCall (CallbackOff i event (AsyncFn n)) a #
         (if fst (off event (CallbackOff i event (AsyncFn n)) s) = None
          then [WrapperCall (AsyncFn n) a] else [])"
proof -
  let ?W = "CallbackOff i event (AsyncFn n)"
  let ?s0 = "s\<lparr>trace := trace s @ [EmitCall ?W a]\<rparr>"
  from off_effect [of event ?W ?s0] obtain d where d: "snd (off event ?W ?s0) = ?s0\<lparr>events := d\<rparr>" ..
  have f: "fst (off event ?W ?s0) = fst (off event ?W s)"
    by (rule off_fst_events) simp
  show ?thesis
  proof (cases "fst (off event ?W s)")
    case (Some e)
    with f d have o: "off event ?W ?s0 = (Some e, ?s0\<lparr>events := d\<rparr>)"
      by (simp add: prod_eq_iff)
    have "call env ?W a ?s0 = (Raised e, ?s0\<lparr>events := d\<rparr>)"
      by (subst call.simps(3), subst o) simp
    with Some show ?thesis
      by (simp add: dispatch_def attempt_def)
  next
    case None
    with f d have o: "off event ?W ?s0 = (None, ?s0\<lparr>events := d\<rparr>)"
      by (simp add: prod_eq_iff)
    let ?s2 = "?s0\<lparr>events := d, trace := trace s @ [EmitCall ?W a, WrapperCall (AsyncFn n) a]\<rparr>"
    have c: "call env ?W a ?s0 = call env (AsyncFn n) a ?s2"
      by (subst call.simps(3), subst o) (simp del: call.simps)
    show ?thesis
    proof (cases "coro_call env n a")
      case None
      with c have "call env ?W a ?s0 = (Returned (Coroutine n a), ?s2)" by simp
      with \<open>fst (off event ?W s) = None\<close> show ?thesis
        by (simp add: dispatch_def attempt_def)
    next
      case (Some e)
      with c have "call env ?W a ?s0 = (Raised e, ?s2)" by simp
      with \<open>fst (off event ?W s) = None\<close> show ?thesis
        by (simp add: dispatch_def attempt_def)
    qed
  qed
qed

text \<open>
  C10. \<open>once(E, cb)\<close> with a coroutine function \<open>cb\<close> registers a \<open>callback_off\<close>, which
  is no coroutine function. A turn of the loop of \<open>emit\<close> on it creates no task (the task
  pool and the tasks of the loop stay as they are) and observes only the call of the
  wrapper and, when \<open>off\<close> returned, the wrapper's call of \<open>cb\<close>, whose coroutine object
  is dropped: the body of \<open>cb\<close> does not run, and the turn is the same whatever that body
  is.
\<close>

theorem once_async_not_scheduled:
  "events (once event (AsyncFn n) s) event =
     Some (registered (events s) event @ [CallbackOff (fresh s) event (AsyncFn n)])
   \<and> \<not> iscoroutinefunction (CallbackOff i event (AsyncFn n))
   \<and> task_pool (snd (dispatch env (CallbackOff i event (AsyncFn n)) a s)) = task_pool s
   \<and> pending (snd (dispatch env (CallbackOff i event (AsyncFn n)) a s)) = pending s
   \<and> new_trace s (snd (dispatch env (CallbackOff i event (AsyncFn n)) a s)) =
       EmitCall (CallbackOff i event (AsyncFn n)) a #
         (if fst (off event (CallbackOff i event (AsyncFn n)) s) = None
          then [WrapperCall (AsyncFn n) a] else [])
   \<and> dispatch (env\<lparr>async_body := b\<rparr>) (CallbackOff i event (AsyncFn n)) a s =
       dispatch env (CallbackOff i event (AsyncFn n)) a s"
  using wrapped_async_fields [of env i event n a s]
  by (simp add: once_eq new_trace_def dispatch_async_body)

theorem once_async_not_scheduled_witness:
  "events (once ''e'' (AsyncFn 0) init) ''e'' = Some [CallbackOff 0 ''e'' (AsyncFn 0)]
   \<and> fst (emit demo ''e'' ([PInt 1], []) (once ''e'' (AsyncFn 0) init)) = None
   \<and> task_pool (snd (emit demo ''e'' ([PInt 1], []) (once ''e'' (AsyncFn 0) init))) = {}
   \<and> pending (snd (emit demo ''e'' ([PInt 1], []) (once ''e'' (AsyncFn 0) init))) = []
   \<and> trace (snd (emit demo ''e'' ([PInt 1], []) (once ''e'' (AsyncFn 0) init)))
       = [EmitCall (CallbackOff 0 ''e'' (AsyncFn 0)) ([PInt 1], []),
          WrapperCall (AsyncFn 0) ([PInt 1], [])]
   \<and> events (snd (emit demo ''e'' ([PInt 1], []) (once ''e'' (AsyncFn 0) init))) ''e'' = None"
proof -
  let ?W = "CallbackOff 0 ''e'' (AsyncFn 0)"
  let ?s1 = "once ''e'' (AsyncFn 0) init"
  let ?a = "([PInt 1], []) :: args"
  note t1 = once_async_not_scheduled [where event = "''e''" and n = 0 and s = init]
  note t2 = once_async_not_scheduled [where event = "''e''" and n = 0 and s = ?s1 and i = 0
      and env = demo and a = ?a]
  from t1 have "events ?s1 ''e'' = Some (registered (events init) ''e'' @ [CallbackOff (fresh init) ''e'' (AsyncFn 0)])"
    by (rule conjunct1)
  then have h1: "events ?s1 ''e'' = Some [?W]"
    by (simp add: registered_def init_def)
  then have e: "emit demo ''e'' ?a ?s1 = dispatch demo ?W ?a ?s1"
    by (cases "dispatch demo ?W ?a ?s1") (simp add: emit_def dispatch_def split: option.splits)
  from t2 have "task_pool (snd (dispatch demo ?W ?a ?s1)) = task_pool ?s1"
    by (rule conjunct1 [OF conjunct2 [OF conjunct2]])
  with e have c1: "task_pool (snd (emit demo ''e'' ?a ?s1)) = {}"
    by (simp add: once_def on_def getitem_def init_def)
  from t2 have "pending (snd (dispatch demo ?W ?a ?s1)) = pending ?s1"
    by (rule conjunct1 [OF conjunct2 [OF conjunct2 [OF conjunct2]]])
  with e have c2: "pending (snd (emit demo ''e'' ?a ?s1)) = []"
    by (simp add: once_def on_def getitem_def init_def)
  from t2 have "new_trace ?s1 (snd (dispatch demo ?W ?a ?s1)) =
       EmitCall ?W ?a # (if fst (off ''e'' ?W ?s1) = None then [WrapperCall (AsyncFn 0) ?a] else [])"
    by (rule conjunct1 [OF conjunct2 [OF conjunct2 [OF conjunct2 [OF conjunct2]]]])
  with e have c3: "trace (snd (emit demo ''e'' ?a ?s1)) = [EmitCall ?W ?a, WrapperCall (AsyncFn 0) ?a]"
    by (simp add: new_trace_def off_def once_def on_def getitem_def init_def)
  have c0: "fst (emit demo ''e'' ?a ?s1) = None"
    by (simp add: run_defs)
  have c4: "events (snd (emit demo ''e'' ?a ?s1)) ''e'' = None"
    by (simp add: run_defs)
  from h1 c0 c1 c2 c3 c4 show ?thesis by (simp only: simp_thms)
qed



subsection \<open>The task pool\<close>
































end
